theory Spec2Isabelle
  imports Main "HOL-Library.Word"
begin

unbundle bit_operations_syntax

section \<open>Value-range iterator (cppstdx/value\_range.hpp)\<close>

text \<open>
  \<open>range_traits<T>\<close> for an integral type \<open>T\<close>: a value of \<open>T\<close> is a word of
  the type's width, and \<open>++x\<close>, \<open>--x\<close>, \<open>x + 1\<close>, \<open>x - 1\<close> are the word operations.
\<close>

definition increment :: "'a::len word \<Rightarrow> 'a word" where
  "increment x = x + 1"

definition decrement :: "'a::len word \<Rightarrow> 'a word" where
  "decrement x = x - 1"

definition "next" :: "'a::len word \<Rightarrow> 'a word" where
  "next x = x + 1"

definition prev :: "'a::len word \<Rightarrow> 'a word" where
  "prev x = x - 1"

text \<open>
  \<open>value_range_iterator<T, Traits>\<close> holds the current value \<open>v_\<close> (the field \<open>v\<close> here: a name of
  Isabelle cannot end in an underscore); the traits object
  of \<open>range_traits\<close> has no state. A member function that mutates \<open>*this\<close> and returns
  an iterator by value is a function to the pair (returned iterator, updated \<open>*this\<close>);
  one that returns \<open>*this\<close> by reference is a function to the updated iterator.
\<close>

record 'v value_range_iterator =
  v :: "'v"

definition pre_increment :: "'a::len word value_range_iterator \<Rightarrow> 'a word value_range_iterator" where
  "pre_increment it = it\<lparr>v := increment (v it)\<rparr>"

definition pre_decrement :: "'a::len word value_range_iterator \<Rightarrow> 'a word value_range_iterator" where
  "pre_decrement it = it\<lparr>v := decrement (v it)\<rparr>"

definition post_increment ::
  "'a::len word value_range_iterator \<Rightarrow>
     'a word value_range_iterator \<times> 'a word value_range_iterator" where
  "post_increment it =
     (let t = v it;
          it' = it\<lparr>v := increment (v it)\<rparr>
      in (\<lparr>v = t\<rparr>, it'))"

text \<open>\<open>operator--(int)\<close>, lines 114 to 118: its body calls \<open>traits_.increment\<close>.\<close>

definition post_decrement ::
  "'a::len word value_range_iterator \<Rightarrow>
     'a word value_range_iterator \<times> 'a word value_range_iterator" where
  "post_decrement it =
     (let t = v it;
          it' = it\<lparr>v := increment (v it)\<rparr>
      in (\<lparr>v = t\<rparr>, it'))"

section \<open>Numeric formatting (clue/formatting\_base.hpp)\<close>

subsection \<open>Formatting flags\<close>

type_synonym flag_t = "32 word"

definition upper_case :: flag_t where "upper_case = 0x01"
definition pad_zeros :: flag_t where "pad_zeros = 0x02"
definition plus_sign :: flag_t where "plus_sign = 0x04"
definition left_just :: flag_t where "left_just = 0x08"
definition quoted :: flag_t where "quoted = 0x10"

subsection \<open>Failures and the caller's buffer\<close>

text \<open>
  A failed \<open>assert\<close> or \<open>CLUE_ASSERT\<close>, a store outside the caller's buffer and a base
  the digit routines do not support are results of their own, so that every theorem
  below that gives a result also says that none of them happened.
\<close>

datatype error = AssertFailed | BufferOverrun | UnsupportedBase

definition bind_r :: "error + 'a \<Rightarrow> ('a \<Rightarrow> error + 'b) \<Rightarrow> error + 'b" where
  "bind_r m f = (case m of Inl e \<Rightarrow> Inl e | Inr a \<Rightarrow> f a)"

text \<open>
  The buffer \<open>charT *buf\<close> is the list of its cells, as long as the buffer's capacity;
  the write pointer \<open>p\<close> is its offset from \<open>buf\<close>. \<open>store\<close> is \<open>buf[i] = c\<close>,
  \<open>put\<close> is \<open>*(p++) = c\<close>, \<open>put_n\<close> is the loop
  \<open>for (size_t i = 0; i < n; ++i) *(p++) = c\<close>, and \<open>put_chars\<close> stores the
  characters of a string one after the other (the digit routines below use it).
\<close>

type_synonym cursor = "char list \<times> nat"

definition store :: "char list \<Rightarrow> nat \<Rightarrow> char \<Rightarrow> error + char list" where
  "store b i c = (if i < length b then Inr (b[i := c]) else Inl BufferOverrun)"

definition put :: "char \<Rightarrow> cursor \<Rightarrow> error + cursor" where
  "put c s = (case s of (b, p) \<Rightarrow> bind_r (store b p c) (\<lambda>b'. Inr (b', Suc p)))"

fun put_n :: "nat \<Rightarrow> char \<Rightarrow> cursor \<Rightarrow> error + cursor" where
  "put_n 0 c s = Inr s"
| "put_n (Suc n) c s = bind_r (put c s) (put_n n c)"

fun put_chars :: "string \<Rightarrow> cursor \<Rightarrow> error + cursor" where
  "put_chars [] s = Inr s"
| "put_chars (c # cs) s = bind_r (put c s) (put_chars cs)"

text \<open>\<open>if (sign) *(p++) = sign\<close>.\<close>

definition put_sign :: "char \<Rightarrow> cursor \<Rightarrow> error + cursor" where
  "put_sign sign s = (if sign \<noteq> CHR 0x00 then put sign s else Inr s)"

subsection \<open>Digit primitives (clue/internal/numfmt.hpp)\<close>

text \<open>
  Modelled from the spec: \<open>details::uabs\<close>, of clue/internal/numfmt.hpp, is not among
  the sources. The spec (4.1) calls its result the unsigned magnitude of the value.
  An argument of any integral type is the integer it denotes.
\<close>

definition uabs :: "int \<Rightarrow> nat" where
  "uabs x = nat \<bar>x\<bar>"

text \<open>
  Modelled from the spec: \<open>details::ndigits_oct\<close>, \<open>details::ndigits_dec\<close> and
  \<open>details::ndigits_hex\<close>, of clue/internal/numfmt.hpp, are not among the sources.
  The spec (4.1): the count of digits needed to represent the unsigned magnitude in
  base 8, 10 or 16. Zero needs the one digit \<open>0\<close> (the spec's \<open>str(0) == "0"\<close>).
\<close>

fun ndigits_oct :: "nat \<Rightarrow> nat" where
  "ndigits_oct u = (if u < 8 then 1 else Suc (ndigits_oct (u div 8)))"

fun ndigits_dec :: "nat \<Rightarrow> nat" where
  "ndigits_dec u = (if u < 10 then 1 else Suc (ndigits_dec (u div 10)))"

fun ndigits_hex :: "nat \<Rightarrow> nat" where
  "ndigits_hex u = (if u < 16 then 1 else Suc (ndigits_hex (u div 16)))"

declare ndigits_oct.simps [simp del]
declare ndigits_dec.simps [simp del]
declare ndigits_hex.simps [simp del]

text \<open>
  Modelled from the spec: \<open>details::extract_digits\<close> and \<open>details::extract_digits_dec\<close>,
  of clue/internal/numfmt.hpp, are not among the sources. The spec (4.1): writes
  exactly \<open>count\<close> digit characters, most significant digit first, with upper-case or
  lower-case letters for the digits above 9; (7): a base the digit routines do not
  support is a contract violation, checked at the boundary. The routine writes
  \<open>p[0]\<close> to \<open>p[count - 1]\<close> and leaves the caller's \<open>p\<close> where it is.
\<close>

definition digit_char :: "bool \<Rightarrow> nat \<Rightarrow> char" where
  "digit_char upper d =
     (if d < 10 then char_of (48 + d)
      else if upper then char_of (55 + d) else char_of (87 + d))"

primrec digit_chars :: "nat \<Rightarrow> bool \<Rightarrow> nat \<Rightarrow> nat \<Rightarrow> string" where
  "digit_chars b upper 0 u = []"
| "digit_chars b upper (Suc n) u = digit_chars b upper n (u div b) @ [digit_char upper (u mod b)]"

definition extract_digits :: "nat \<Rightarrow> nat \<Rightarrow> bool \<Rightarrow> cursor \<Rightarrow> nat \<Rightarrow> error + char list" where
  "extract_digits u b upper s n =
     (if b \<noteq> 8 \<and> b \<noteq> 10 \<and> b \<noteq> 16 then Inl UnsupportedBase
      else bind_r (put_chars (digit_chars b upper n u) s) (\<lambda>s'. Inr (fst s')))"

definition extract_digits_dec :: "nat \<Rightarrow> cursor \<Rightarrow> nat \<Rightarrow> error + char list" where
  "extract_digits_dec u s n =
     bind_r (put_chars (digit_chars 10 False n u) s) (\<lambda>s'. Inr (fst s'))"

subsection \<open>ndigits\<close>

text \<open>Lines 61 to 70. The \<open>unsigned\<close> base is the number it denotes.\<close>

definition ndigits :: "int \<Rightarrow> nat \<Rightarrow> nat" where
  "ndigits x b =
     (let u = uabs x
      in if b = 8 then ndigits_oct u
         else if b = 10 then ndigits_dec u
         else if b = 16 then ndigits_hex u
         else 0)"

subsection \<open>int\_formatter\<close>

text \<open>
  The private members \<open>base_\<close>, \<open>width_\<close> and \<open>flags_\<close> carry the names of their
  accessors here. A \<open>size_t\<close> is the natural number it denotes: a digit count is at
  most 22 for a 64-bit argument, \<open>width_ - flen\<close> is evaluated only where
  \<open>width_ > flen\<close>, and no other \<open>size_t\<close> arithmetic of these functions can wrap.
\<close>

record int_formatter =
  base :: nat
  width :: nat
  flags :: flag_t

definition int_formatter_default :: int_formatter where
  "int_formatter_default = \<lparr>base = 10, width = 0, flags = 0\<rparr>"

definition int_formatter_base :: "nat \<Rightarrow> int_formatter" where
  "int_formatter_base b = \<lparr>base = b, width = 0, flags = 0\<rparr>"

definition set_base :: "int_formatter \<Rightarrow> nat \<Rightarrow> int_formatter" where
  "set_base fmt b = \<lparr>base = b, width = width fmt, flags = flags fmt\<rparr>"

definition set_width :: "int_formatter \<Rightarrow> nat \<Rightarrow> int_formatter" where
  "set_width fmt w = \<lparr>base = base fmt, width = w, flags = flags fmt\<rparr>"

definition set_flags :: "int_formatter \<Rightarrow> flag_t \<Rightarrow> int_formatter" where
  "set_flags fmt f = \<lparr>base = base fmt, width = width fmt, flags = f\<rparr>"

text \<open>\<open>operator |\<close>.\<close>

definition or_flags :: "int_formatter \<Rightarrow> flag_t \<Rightarrow> int_formatter" where
  "or_flags fmt f = \<lparr>base = base fmt, width = width fmt, flags = flags fmt OR f\<rparr>"

definition any :: "int_formatter \<Rightarrow> flag_t \<Rightarrow> bool" where
  "any fmt msk = (flags fmt AND msk \<noteq> 0)"

definition oct_fmt :: int_formatter where "oct_fmt = int_formatter_base 8"
definition dec_fmt :: int_formatter where "dec_fmt = int_formatter_base 10"
definition hex_fmt :: int_formatter where "hex_fmt = int_formatter_base 16"

definition max_formatted_length :: "int_formatter \<Rightarrow> int \<Rightarrow> nat" where
  "max_formatted_length fmt x =
     (let n = ndigits x (base fmt);
          n = (if x < 0 \<or> any fmt plus_sign then n + 1 else n)
      in if n > width fmt then n else width fmt)"

text \<open>
  Lines 131 to 157. The result is the returned length \<open>p + nd - buf\<close> and the buffer
  after the call.
\<close>

definition formatted_write ::
  "int_formatter \<Rightarrow> int \<Rightarrow> char list \<Rightarrow> nat \<Rightarrow> error + (nat \<times> char list)" where
  "formatted_write fmt x buf buf_len =
     (let ax = uabs x;
          nd = ndigits (int ax) (base fmt);
          sign = (if x < 0 then CHR ''-''
                  else if any fmt plus_sign then CHR ''+'' else CHR 0x00);
          flen = nd + (if sign \<noteq> CHR 0x00 then 1 else 0)
      in if \<not> buf_len > flen then Inl AssertFailed
         else bind_r
           (if width fmt > flen then
              (let plen = width fmt - flen
               in if any fmt pad_zeros
                  then bind_r (put_sign sign (buf, 0)) (put_n plen (CHR ''0''))
                  else bind_r (put_n plen (CHR '' '') (buf, 0)) (put_sign sign))
            else put_sign sign (buf, 0))
           (\<lambda>s. case s of (b, p) \<Rightarrow>
              bind_r (extract_digits ax (base fmt) (any fmt upper_case) (b, p) nd)
                (\<lambda>b'. bind_r (store b' (p + nd) (CHR 0x00))
                   (\<lambda>b''. Inr (p + nd, b'')))))"

subsection \<open>The written text, as the spec lays it out\<close>

text \<open>
  The spec (4.2) describes the text of \<open>formatted_write\<close> by its parts: the sign
  character if any, the fill, the digits. These definitions follow the spec's words;
  the theorems below compare them with \<open>formatted_write\<close>.
\<close>

definition sign_text :: "int_formatter \<Rightarrow> int \<Rightarrow> string" where
  "sign_text fmt x = (if x < 0 then ''-'' else if any fmt plus_sign then ''+'' else [])"

definition digits_text :: "int_formatter \<Rightarrow> int \<Rightarrow> string" where
  "digits_text fmt x =
     digit_chars (base fmt) (any fmt upper_case) (ndigits x (base fmt)) (uabs x)"

definition padded_text :: "int_formatter \<Rightarrow> int \<Rightarrow> string" where
  "padded_text fmt x =
     (let plen = width fmt - (length (sign_text fmt x) + ndigits x (base fmt))
      in if any fmt pad_zeros
         then sign_text fmt x @ replicate plen (CHR ''0'') @ digits_text fmt x
         else replicate plen (CHR '' '') @ sign_text fmt x @ digits_text fmt x)"

definition sign_char :: "int_formatter \<Rightarrow> int \<Rightarrow> char" where
  "sign_char fmt x =
     (if x < 0 then CHR ''-'' else if any fmt plus_sign then CHR ''+'' else CHR 0x00)"

definition pad_text :: "int_formatter \<Rightarrow> int \<Rightarrow> string" where
  "pad_text fmt x =
     (let plen = width fmt - (length (sign_text fmt x) + ndigits x (base fmt))
      in if any fmt pad_zeros
         then sign_text fmt x @ replicate plen (CHR ''0'')
         else replicate plen (CHR '' '') @ sign_text fmt x)"

subsection \<open>default\_int\_formatter\<close>

definition default_max_formatted_length :: "int \<Rightarrow> nat" where
  "default_max_formatted_length x =
     (let n = ndigits_dec (uabs x)
      in if x < 0 then n + 1 else n)"

text \<open>Lines 202 to 219. The returned length is \<open>flen\<close>.\<close>

definition default_formatted_write ::
  "int \<Rightarrow> char list \<Rightarrow> nat \<Rightarrow> error + (nat \<times> char list)" where
  "default_formatted_write x buf buf_len =
     (let ax = uabs x;
          nd = ndigits_dec ax;
          flen = nd
      in bind_r
           (if x < 0 then
              (let flen = flen + 1
               in if \<not> buf_len > flen then Inl AssertFailed
                  else bind_r (put (CHR ''-'') (buf, 0)) (\<lambda>s. Inr (s, flen)))
            else if \<not> buf_len > flen then Inl AssertFailed
            else Inr ((buf, 0), flen))
           (\<lambda>r. case r of ((b, p), flen) \<Rightarrow>
              bind_r (extract_digits_dec ax (b, p) nd)
                (\<lambda>b'. bind_r (store b' (p + nd) (CHR 0x00))
                   (\<lambda>b''. Inr (flen, b'')))))"


subsection \<open>strf and str\<close>

text \<open>
  Lines 392 to 402. A formatter \<open>Fmt\<close> is its two member functions.
  \<open>std::string s(fmt_len, '\0')\<close> owns \<open>fmt_len + 1\<close> cells, all zero, the last one the
  terminator; the text of \<open>s\<close> is the first \<open>s.size()\<close> of them, and \<open>s.resize(wlen)\<close>
  with \<open>wlen < fmt_len\<close> keeps the first \<open>wlen\<close>.
\<close>

definition strf ::
  "('a \<Rightarrow> nat) \<Rightarrow> ('a \<Rightarrow> char list \<Rightarrow> nat \<Rightarrow> error + (nat \<times> char list)) \<Rightarrow> 'a \<Rightarrow> error + string" where
  "strf fmt_max_formatted_length fmt_formatted_write x =
     (let fmt_len = fmt_max_formatted_length x;
          s = replicate (fmt_len + 1) (CHR 0x00)
      in bind_r (fmt_formatted_write x s (fmt_len + 1))
           (\<lambda>r. case r of (wlen, s') \<Rightarrow>
              if \<not> wlen \<le> fmt_len then Inl AssertFailed
              else if wlen < fmt_len then Inr (take wlen (take fmt_len s'))
              else Inr (take fmt_len s')))"

definition strf_int :: "int_formatter \<Rightarrow> int \<Rightarrow> error + string" where
  "strf_int fmt x = strf (max_formatted_length fmt) (formatted_write fmt) x"

text \<open>\<open>str(x)\<close> for an integral \<open>x\<close>: \<open>default_formatter(x)\<close> is \<open>default_int_fmt()\<close>.\<close>

definition str :: "int \<Rightarrow> error + string" where
  "str x = strf default_max_formatted_length default_formatted_write x"

subsection \<open>float\_formatter\<close>

text \<open>
  A \<open>double\<close> is its IEEE-754 binary64 bit pattern: sign bit 63, exponent bits 62 to
  52, fraction bits 51 to 0. \<open>std::isfinite\<close>, \<open>std::isinf\<close>, \<open>std::isnan\<close> and
  \<open>std::signbit\<close> read that pattern.
\<close>

type_synonym double = "64 word"

definition signbit :: "double \<Rightarrow> bool" where
  "signbit x = bit x 63"

definition exponent_bits :: "double \<Rightarrow> 64 word" where
  "exponent_bits x = take_bit 11 (drop_bit 52 x)"

definition fraction_bits :: "double \<Rightarrow> 64 word" where
  "fraction_bits x = take_bit 52 x"

definition isfinite :: "double \<Rightarrow> bool" where
  "isfinite x = (exponent_bits x \<noteq> 0x7FF)"

definition isinf :: "double \<Rightarrow> bool" where
  "isinf x = (exponent_bits x = 0x7FF \<and> fraction_bits x = 0)"

definition isnan :: "double \<Rightarrow> bool" where
  "isnan x = (exponent_bits x = 0x7FF \<and> fraction_bits x \<noteq> 0)"

datatype tag = fixed_t | sci_t

record float_formatter =
  notation_tag :: tag
  fwidth :: nat
  fprecision :: nat
  fflags :: flag_t

definition float_any :: "float_formatter \<Rightarrow> flag_t \<Rightarrow> bool" where
  "float_any fmt msk = (fflags fmt AND msk \<noteq> 0)"

text \<open>
  \<open>float_fmt_traits<Tag>::maxfmtlength\<close>. \<open>maxfmtlength_fixed\<close> and
  \<open>maxfmtlength_sci\<close>, of clue/internal/numfmt.hpp, are not among the sources and the
  spec gives no formula for them: they are the parameters \<open>mf_fixed\<close> and \<open>mf_sci\<close>.
\<close>

definition maxfmtlength ::
  "(double \<Rightarrow> nat \<Rightarrow> bool \<Rightarrow> nat) \<Rightarrow> (double \<Rightarrow> nat \<Rightarrow> bool \<Rightarrow> nat) \<Rightarrow>
   tag \<Rightarrow> double \<Rightarrow> nat \<Rightarrow> bool \<Rightarrow> nat" where
  "maxfmtlength mf_fixed mf_sci t x precision with_plus =
     (case t of
        fixed_t \<Rightarrow> mf_fixed x precision with_plus
      | sci_t \<Rightarrow> mf_sci x precision with_plus)"

text \<open>Lines 310 to 321.\<close>

definition float_max_formatted_length ::
  "(double \<Rightarrow> nat \<Rightarrow> bool \<Rightarrow> nat) \<Rightarrow> (double \<Rightarrow> nat \<Rightarrow> bool \<Rightarrow> nat) \<Rightarrow>
   float_formatter \<Rightarrow> double \<Rightarrow> error + nat" where
  "float_max_formatted_length mf_fixed mf_sci fmt x =
     bind_r
       (if isfinite x then
          Inr (maxfmtlength mf_fixed mf_sci (notation_tag fmt) x (fprecision fmt)
                 (float_any fmt plus_sign))
        else if isinf x then
          Inr (if signbit x \<or> float_any fmt plus_sign then 4 else 3)
        else if \<not> isnan x then Inl AssertFailed
        else Inr (if float_any fmt plus_sign then 4 else 3))
       (\<lambda>n. Inr (if n > fwidth fmt then n else fwidth fmt))"

section \<open>Theorems\<close>

subsection \<open>The buffer\<close>

lemma bind_r_Inr [simp]: "bind_r (Inr a) f = f a"
  by (simp add: bind_r_def)

lemma bind_r_Inl [simp]: "bind_r (Inl e) f = Inl e"
  by (simp add: bind_r_def)

lemma put_ok: "p < length b \<Longrightarrow> put c (b, p) = Inr (take p b @ c # drop (Suc p) b, Suc p)"
  by (simp add: put_def store_def upd_conv_take_nth_drop)

lemma put_chars_ok:
  "p + length cs \<le> length b \<Longrightarrow>
   put_chars cs (b, p) = Inr (take p b @ cs @ drop (p + length cs) b, p + length cs)"
proof (induction cs arbitrary: b p)
  case Nil
  then show ?case by simp
next
  case (Cons c cs)
  let ?b = "take p b @ c # drop (Suc p) b"
  from Cons.prems have p: "p < length b" by simp
  have len: "length ?b = length b" using p by simp
  have "Suc p + length cs \<le> length ?b" using Cons.prems len by simp
  from Cons.IH [OF this]
  have "put_chars cs (?b, Suc p) =
        Inr (take (Suc p) ?b @ cs @ drop (Suc p + length cs) ?b, Suc p + length cs)" .
  moreover have "take (Suc p) ?b = take p b @ [c]" using p by simp
  moreover have "drop (Suc p + length cs) ?b = drop (Suc p + length cs) b"
    using p by (simp add: add.commute)
  ultimately show ?case using p by (simp add: put_ok)
qed

lemma put_n_eq: "put_n n c s = put_chars (replicate n c) s"
  by (induction n arbitrary: s) (simp_all add: bind_r_def split: sum.splits)

lemma put_n_fun: "put_n n c = put_chars (replicate n c)"
  by (rule ext) (rule put_n_eq)

lemma put_eq: "put c s = put_chars [c] s"
  by (simp add: bind_r_def split: sum.splits)

lemma put_sign_eq: "put_sign sg s = put_chars (if sg \<noteq> CHR 0x00 then [sg] else []) s"
  by (simp add: put_sign_def bind_r_def split: sum.splits)

lemma put_sign_fun: "put_sign sg = put_chars (if sg \<noteq> CHR 0x00 then [sg] else [])"
  by (rule ext) (rule put_sign_eq)

lemma put_chars_append:
  "put_chars (cs @ ds) s = bind_r (put_chars cs s) (put_chars ds)"
  by (induction cs arbitrary: s) (simp_all add: bind_r_def split: sum.splits)

lemma length_digit_chars [simp]: "length (digit_chars b upper n u) = n"
  by (induction n arbitrary: u) simp_all

lemma ndigits_uabs [simp]: "ndigits (int (uabs x)) b = ndigits x b"
  by (simp add: ndigits_def uabs_def)

lemma uabs_uabs [simp]: "uabs (int (uabs x)) = uabs x"
  by (simp add: uabs_def)



lemma store_ok:
  "length cs < length b \<Longrightarrow>
   store (cs @ drop (length cs) b) (length cs) c = Inr (cs @ c # drop (Suc (length cs)) b)"
proof -
  assume l: "length cs < length b"
  then have "drop (length cs) b = b ! length cs # drop (Suc (length cs)) b"
    by (simp add: Cons_nth_drop_Suc)
  then show ?thesis using l by (simp add: store_def)
qed

subsection \<open>Digit counts\<close>

lemma ndigits_oct_pos: "0 < ndigits_oct u"
  by (subst ndigits_oct.simps) simp

lemma ndigits_oct_upper: "u < 8 ^ ndigits_oct u"
proof (induction u rule: ndigits_oct.induct)
  case (1 u)
  show ?case
  proof (cases "u < 8")
    case True
    then show ?thesis by (subst ndigits_oct.simps) simp
  next
    case False
    with 1 have "u div 8 < 8 ^ ndigits_oct (u div 8)" by simp
    then have "u < 8 * 8 ^ ndigits_oct (u div 8)" by simp
    with False show ?thesis by (subst ndigits_oct.simps) simp
  qed
qed

lemma ndigits_oct_lower: "1 < ndigits_oct u \<Longrightarrow> 8 ^ (ndigits_oct u - 1) \<le> u"
proof (induction u rule: ndigits_oct.induct)
  case (1 u)
  show ?case
  proof (cases "u < 8")
    case True
    with "1.prems" show ?thesis by (subst (asm) ndigits_oct.simps) simp
  next
    case False
    have eq: "ndigits_oct u = Suc (ndigits_oct (u div 8))"
      using False by (subst ndigits_oct.simps) simp
    show ?thesis
    proof (cases "1 < ndigits_oct (u div 8)")
      case True
      with 1 False have "8 ^ (ndigits_oct (u div 8) - 1) \<le> u div 8" by simp
      then have "8 * 8 ^ (ndigits_oct (u div 8) - 1) \<le> u" by simp
      moreover have "ndigits_oct (u div 8) = Suc (ndigits_oct (u div 8) - 1)"
        using True by simp
      ultimately show ?thesis unfolding eq
        by (metis diff_Suc_1 power_Suc)
    next
      case False
      then have "ndigits_oct (u div 8) = 1" using ndigits_oct_pos [of "u div 8"] by simp
      with \<open>\<not> u < 8\<close> show ?thesis by (simp add: eq)
    qed
  qed
qed

lemma ndigits_dec_pos: "0 < ndigits_dec u"
  by (subst ndigits_dec.simps) simp

lemma ndigits_dec_upper: "u < 10 ^ ndigits_dec u"
proof (induction u rule: ndigits_dec.induct)
  case (1 u)
  show ?case
  proof (cases "u < 10")
    case True
    then show ?thesis by (subst ndigits_dec.simps) simp
  next
    case False
    with 1 have "u div 10 < 10 ^ ndigits_dec (u div 10)" by simp
    then have "u < 10 * 10 ^ ndigits_dec (u div 10)" by simp
    with False show ?thesis by (subst ndigits_dec.simps) simp
  qed
qed

lemma ndigits_dec_lower: "1 < ndigits_dec u \<Longrightarrow> 10 ^ (ndigits_dec u - 1) \<le> u"
proof (induction u rule: ndigits_dec.induct)
  case (1 u)
  show ?case
  proof (cases "u < 10")
    case True
    with "1.prems" show ?thesis by (subst (asm) ndigits_dec.simps) simp
  next
    case False
    have eq: "ndigits_dec u = Suc (ndigits_dec (u div 10))"
      using False by (subst ndigits_dec.simps) simp
    show ?thesis
    proof (cases "1 < ndigits_dec (u div 10)")
      case True
      with 1 False have "10 ^ (ndigits_dec (u div 10) - 1) \<le> u div 10" by simp
      then have "10 * 10 ^ (ndigits_dec (u div 10) - 1) \<le> u" by simp
      moreover have "ndigits_dec (u div 10) = Suc (ndigits_dec (u div 10) - 1)"
        using True by simp
      ultimately show ?thesis unfolding eq
        by (metis diff_Suc_1 power_Suc)
    next
      case False
      then have "ndigits_dec (u div 10) = 1" using ndigits_dec_pos [of "u div 10"] by simp
      with \<open>\<not> u < 10\<close> show ?thesis by (simp add: eq)
    qed
  qed
qed

lemma ndigits_hex_pos: "0 < ndigits_hex u"
  by (subst ndigits_hex.simps) simp

lemma ndigits_hex_upper: "u < 16 ^ ndigits_hex u"
proof (induction u rule: ndigits_hex.induct)
  case (1 u)
  show ?case
  proof (cases "u < 16")
    case True
    then show ?thesis by (subst ndigits_hex.simps) simp
  next
    case False
    with 1 have "u div 16 < 16 ^ ndigits_hex (u div 16)" by simp
    then have "u < 16 * 16 ^ ndigits_hex (u div 16)" by simp
    with False show ?thesis by (subst ndigits_hex.simps) simp
  qed
qed

lemma ndigits_hex_lower: "1 < ndigits_hex u \<Longrightarrow> 16 ^ (ndigits_hex u - 1) \<le> u"
proof (induction u rule: ndigits_hex.induct)
  case (1 u)
  show ?case
  proof (cases "u < 16")
    case True
    with "1.prems" show ?thesis by (subst (asm) ndigits_hex.simps) simp
  next
    case False
    have eq: "ndigits_hex u = Suc (ndigits_hex (u div 16))"
      using False by (subst ndigits_hex.simps) simp
    show ?thesis
    proof (cases "1 < ndigits_hex (u div 16)")
      case True
      with 1 False have "16 ^ (ndigits_hex (u div 16) - 1) \<le> u div 16" by simp
      then have "16 * 16 ^ (ndigits_hex (u div 16) - 1) \<le> u" by simp
      moreover have "ndigits_hex (u div 16) = Suc (ndigits_hex (u div 16) - 1)"
        using True by simp
      ultimately show ?thesis unfolding eq
        by (metis diff_Suc_1 power_Suc)
    next
      case False
      then have "ndigits_hex (u div 16) = 1" using ndigits_hex_pos [of "u div 16"] by simp
      with \<open>\<not> u < 16\<close> show ?thesis by (simp add: eq)
    qed
  qed
qed


lemma ndigits_cases:
  "ndigits x 8 = ndigits_oct (nat \<bar>x\<bar>)"
  "ndigits x 10 = ndigits_dec (nat \<bar>x\<bar>)"
  "ndigits x 16 = ndigits_hex (nat \<bar>x\<bar>)"
  by (simp_all add: ndigits_def uabs_def)

lemma ndigits_pos:
  assumes "b = 8 \<or> b = 10 \<or> b = 16"
  shows "0 < ndigits x b"
  using assms
  by (elim disjE) (simp_all only: ndigits_cases ndigits_oct_pos ndigits_dec_pos ndigits_hex_pos)

lemma ndigits_upper:
  assumes "b = 8 \<or> b = 10 \<or> b = 16"
  shows "nat \<bar>x\<bar> < b ^ ndigits x b"
  using assms
  by (elim disjE)
    (simp_all only: ndigits_cases ndigits_oct_upper ndigits_dec_upper ndigits_hex_upper)

lemma ndigits_lower:
  assumes "b = 8 \<or> b = 10 \<or> b = 16" and "1 < ndigits x b"
  shows "b ^ (ndigits x b - 1) \<le> nat \<bar>x\<bar>"
proof -
  from assms(1) consider "b = 8" | "b = 10" | "b = 16" by blast
  then show ?thesis
  proof cases
    case 1
    from assms(2) show ?thesis unfolding 1 ndigits_cases by (rule ndigits_oct_lower)
  next
    case 2
    from assms(2) show ?thesis unfolding 2 ndigits_cases by (rule ndigits_dec_lower)
  next
    case 3
    from assms(2) show ?thesis unfolding 3 ndigits_cases by (rule ndigits_hex_lower)
  qed
qed

text \<open>
  C6. \<open>ndigits(x, b)\<close> is 0 for every base other than 8, 10 and 16; for those three
  it is the number of base-\<open>b\<close> digits of the unsigned magnitude of \<open>x\<close>: the
  positive \<open>n\<close> with \<open>|x| < b ^ n\<close> and, where \<open>n > 1\<close>, \<open>b ^ (n - 1) \<le> |x|\<close>
  (zero needs one digit).
\<close>

theorem ndigits_spec:
  "(b \<noteq> 8 \<and> b \<noteq> 10 \<and> b \<noteq> 16 \<longrightarrow> ndigits x b = 0) \<and>
   (b = 8 \<or> b = 10 \<or> b = 16 \<longrightarrow>
      0 < ndigits x b \<and> nat \<bar>x\<bar> < b ^ ndigits x b \<and>
      (1 < ndigits x b \<longrightarrow> b ^ (ndigits x b - 1) \<le> nat \<bar>x\<bar>))"
proof (intro conjI impI)
  assume "b \<noteq> 8 \<and> b \<noteq> 10 \<and> b \<noteq> 16"
  then show "ndigits x b = 0" by (simp add: ndigits_def Let_def)
next
  assume b: "b = 8 \<or> b = 10 \<or> b = 16"
  then show "0 < ndigits x b" by (rule ndigits_pos)
  from b show "nat \<bar>x\<bar> < b ^ ndigits x b" by (rule ndigits_upper)
  assume "1 < ndigits x b"
  with b show "b ^ (ndigits x b - 1) \<le> nat \<bar>x\<bar>" by (rule ndigits_lower)
qed

theorem ndigits_spec_witness:
  "((7::nat) \<noteq> 8 \<and> (7::nat) \<noteq> 10 \<and> (7::nat) \<noteq> 16)
   \<and> ndigits (- 255) 7 = 0
   \<and> ((16::nat) = 8 \<or> (16::nat) = 10 \<or> (16::nat) = 16)
   \<and> ndigits (- 255) 16 = 2
   \<and> nat \<bar>- 255 :: int\<bar> < 16 ^ ndigits (- 255) 16
   \<and> 1 < ndigits (- 255) 16
   \<and> (16::nat) ^ (ndigits (- 255) 16 - 1) \<le> nat \<bar>- 255 :: int\<bar>"
proof -
  have e: "ndigits (- 255) 16 = 2"
    by (simp add: ndigits_def uabs_def ndigits_hex.simps)
  show ?thesis using ndigits_spec [of 7 "- 255"] ndigits_spec [of 16 "- 255"] e by simp
qed

subsection \<open>int\_formatter\<close>

lemma sign_char_text:
  "(if sign_char fmt x \<noteq> CHR 0x00 then [sign_char fmt x] else []) = sign_text fmt x"
  by (simp add: sign_char_def sign_text_def)

lemma sign_char_len:
  "(if sign_char fmt x \<noteq> CHR 0x00 then 1 else 0) = length (sign_text fmt x)"
  by (simp add: sign_char_def sign_text_def)

lemma max_formatted_length_eq:
  "max_formatted_length fmt x = max (width fmt) (length (sign_text fmt x) + ndigits x (base fmt))"
  by (simp add: max_formatted_length_def sign_text_def Let_def)

lemma padded_text_eq: "padded_text fmt x = pad_text fmt x @ digits_text fmt x"
  by (simp add: padded_text_def pad_text_def Let_def)

lemma length_pad_text:
  "length (pad_text fmt x) + ndigits x (base fmt) = max_formatted_length fmt x"
  by (auto simp add: pad_text_def Let_def max_formatted_length_eq)

lemma length_padded_text: "length (padded_text fmt x) = max_formatted_length fmt x"
  by (simp add: padded_text_eq digits_text_def length_pad_text)

lemma pad_phase:
  "(if width fmt > length (sign_text fmt x) + ndigits x (base fmt) then
      (let plen = width fmt - (length (sign_text fmt x) + ndigits x (base fmt))
       in if any fmt pad_zeros
          then bind_r (put_sign (sign_char fmt x) (buf, 0)) (put_n plen (CHR ''0''))
          else bind_r (put_n plen (CHR '' '') (buf, 0)) (put_sign (sign_char fmt x)))
    else put_sign (sign_char fmt x) (buf, 0)) = put_chars (pad_text fmt x) (buf, 0)"
  by (simp add: pad_text_def Let_def put_sign_fun put_n_fun put_chars_append sign_char_text)

lemma formatted_write_unfold:
  "formatted_write fmt x buf buf_len =
     (if \<not> buf_len > length (sign_text fmt x) + ndigits x (base fmt) then Inl AssertFailed
      else bind_r (put_chars (pad_text fmt x) (buf, 0))
        (\<lambda>s. case s of (b, p) \<Rightarrow>
           bind_r (extract_digits (uabs x) (base fmt) (any fmt upper_case) (b, p)
                     (ndigits x (base fmt)))
             (\<lambda>b'. bind_r (store b' (p + ndigits x (base fmt)) (CHR 0x00))
                (\<lambda>b''. Inr (p + ndigits x (base fmt), b'')))))"
proof -
  have step: "formatted_write fmt x buf buf_len =
     (if \<not> buf_len > ndigits x (base fmt) + (if sign_char fmt x \<noteq> CHR 0x00 then 1 else 0)
      then Inl AssertFailed
      else bind_r
        (if width fmt > ndigits x (base fmt) + (if sign_char fmt x \<noteq> CHR 0x00 then 1 else 0) then
          (let plen = width fmt - (ndigits x (base fmt) + (if sign_char fmt x \<noteq> CHR 0x00 then 1 else 0))
           in if any fmt pad_zeros
              then bind_r (put_sign (sign_char fmt x) (buf, 0)) (put_n plen (CHR ''0''))
              else bind_r (put_n plen (CHR '' '') (buf, 0)) (put_sign (sign_char fmt x)))
         else put_sign (sign_char fmt x) (buf, 0))
        (\<lambda>s. case s of (b, p) \<Rightarrow>
           bind_r (extract_digits (uabs x) (base fmt) (any fmt upper_case) (b, p)
                     (ndigits x (base fmt)))
             (\<lambda>b'. bind_r (store b' (p + ndigits x (base fmt)) (CHR 0x00))
                (\<lambda>b''. Inr (p + ndigits x (base fmt), b'')))))"
    unfolding formatted_write_def Let_def sign_char_def ndigits_uabs by (rule refl)
  show ?thesis
    unfolding step sign_char_len add.commute [of "ndigits x (base fmt)"] pad_phase
    by (rule refl)
qed

lemma formatted_write_result:
  assumes b: "base fmt = 8 \<or> base fmt = 10 \<or> base fmt = 16"
    and a: "length (sign_text fmt x) + ndigits x (base fmt) < buf_len"
    and l: "max_formatted_length fmt x < length buf"
  shows "formatted_write fmt x buf buf_len =
           Inr (max_formatted_length fmt x,
                padded_text fmt x @ CHR 0x00 # drop (Suc (max_formatted_length fmt x)) buf)"
proof -
  let ?pre = "pad_text fmt x" and ?dg = "digits_text fmt x" and ?nd = "ndigits x (base fmt)"
  have lp: "length ?pre + ?nd = max_formatted_length fmt x" by (rule length_pad_text)
  have 1: "put_chars ?pre (buf, 0) = Inr (?pre @ drop (length ?pre) buf, length ?pre)"
    using put_chars_ok [of 0 ?pre buf] lp l by simp
  have 2: "extract_digits (uabs x) (base fmt) (any fmt upper_case)
             (?pre @ drop (length ?pre) buf, length ?pre) ?nd =
           Inr ((?pre @ ?dg) @ drop (length (?pre @ ?dg)) buf)"
    using b put_chars_ok [of "length ?pre" ?dg "?pre @ drop (length ?pre) buf"] lp l
    by (auto simp add: extract_digits_def digits_text_def add.commute)
  have 3: "store ((?pre @ ?dg) @ drop (length (?pre @ ?dg)) buf) (length ?pre + ?nd) (CHR 0x00) =
           Inr ((?pre @ ?dg) @ CHR 0x00 # drop (Suc (length (?pre @ ?dg))) buf)"
    using store_ok [of "?pre @ ?dg" buf "CHR 0x00"] lp l by (simp add: digits_text_def)
  have "formatted_write fmt x buf buf_len =
          Inr (length ?pre + ?nd, (?pre @ ?dg) @ CHR 0x00 # drop (Suc (length (?pre @ ?dg))) buf)"
    unfolding formatted_write_unfold using a
    by (simp only: if_True if_False 1 2 3 bind_r_Inr prod.case simp_thms)
  moreover have "length (?pre @ ?dg) = max_formatted_length fmt x"
    using lp by (simp add: digits_text_def)
  ultimately show ?thesis
    by (simp add: lp padded_text_eq)
qed
lemma fl_le_max: "length (sign_text fmt x) + ndigits x (base fmt) \<le> max_formatted_length fmt x"
  by (simp add: max_formatted_length_eq)

text \<open>
  C3. For a base among 8, 10 and 16, \<open>max_formatted_length(x)\<close> is
  \<open>max(w, d + s)\<close>: \<open>w\<close> the minimum width, \<open>d\<close> the digit count of \<open>|x|\<close> in the
  base (the positive \<open>d\<close> with \<open>|x| < base ^ d\<close> and, where \<open>d > 1\<close>,
  \<open>base ^ (d - 1) \<le> |x|\<close>), and \<open>s\<close> 1 if \<open>x\<close> is negative or the plus-sign flag is set
  and 0 otherwise.
\<close>

theorem max_formatted_length_spec:
  assumes "base fmt = 8 \<or> base fmt = 10 \<or> base fmt = 16"
  shows "\<exists>d. max_formatted_length fmt x =
               max (width fmt) (d + (if x < 0 \<or> any fmt plus_sign then 1 else 0))
             \<and> 0 < d \<and> nat \<bar>x\<bar> < base fmt ^ d
             \<and> (1 < d \<longrightarrow> base fmt ^ (d - 1) \<le> nat \<bar>x\<bar>)"
proof (intro exI conjI)
  show "max_formatted_length fmt x =
          max (width fmt) (ndigits x (base fmt) + (if x < 0 \<or> any fmt plus_sign then 1 else 0))"
    by (simp add: max_formatted_length_def Let_def)
  show "0 < ndigits x (base fmt)" using assms by (rule ndigits_pos)
  show "nat \<bar>x\<bar> < base fmt ^ ndigits x (base fmt)" using assms by (rule ndigits_upper)
  show "1 < ndigits x (base fmt) \<longrightarrow> base fmt ^ (ndigits x (base fmt) - 1) \<le> nat \<bar>x\<bar>"
    using assms ndigits_lower by blast
qed

theorem max_formatted_length_spec_witness:
  "(base (set_width hex_fmt 3) = 8 \<or> base (set_width hex_fmt 3) = 10
      \<or> base (set_width hex_fmt 3) = 16)
   \<and> (\<exists>d. max_formatted_length (set_width hex_fmt 3) (- 255) =
              max (width (set_width hex_fmt 3))
                (d + (if (- 255 :: int) < 0 \<or> any (set_width hex_fmt 3) plus_sign then 1 else 0))
            \<and> 0 < d \<and> nat \<bar>- 255\<bar> < base (set_width hex_fmt 3) ^ d
            \<and> (1 < d \<longrightarrow> base (set_width hex_fmt 3) ^ (d - 1) \<le> nat \<bar>- 255\<bar>))"
proof -
  have h: "base (set_width hex_fmt 3) = 8 \<or> base (set_width hex_fmt 3) = 10
      \<or> base (set_width hex_fmt 3) = 16"
    by (simp add: set_width_def hex_fmt_def int_formatter_base_def)
  show ?thesis
    using h max_formatted_length_spec [OF h, of "- 255"] by blast
qed

text \<open>
  C9. For a base among 8, 10 and 16 and a buffer whose capacity \<open>buf_len\<close> exceeds
  \<open>max_formatted_length(x)\<close>, \<open>formatted_write(x, buf, buf_len)\<close> returns a length,
  and the length is exactly \<open>max_formatted_length(x)\<close>.
\<close>

theorem formatted_write_returns_bound:
  assumes "base fmt = 8 \<or> base fmt = 10 \<or> base fmt = 16"
    and "length buf = buf_len"
    and "max_formatted_length fmt x < buf_len"
  shows "\<exists>buf'. formatted_write fmt x buf buf_len = Inr (max_formatted_length fmt x, buf')"
  using formatted_write_result [of fmt x buf_len buf] fl_le_max [of fmt x] assms
  by (simp add: le_less_trans)

theorem formatted_write_returns_bound_witness:
  "(base (set_width dec_fmt 5) = 8 \<or> base (set_width dec_fmt 5) = 10
      \<or> base (set_width dec_fmt 5) = 16)
   \<and> length (replicate 6 (CHR ''x'')) = 6
   \<and> max_formatted_length (set_width dec_fmt 5) 42 < 6
   \<and> (\<exists>buf'. formatted_write (set_width dec_fmt 5) 42 (replicate 6 (CHR ''x'')) 6 =
                Inr (max_formatted_length (set_width dec_fmt 5) 42, buf'))"
proof -
  have h: "base (set_width dec_fmt 5) = 8 \<or> base (set_width dec_fmt 5) = 10
      \<or> base (set_width dec_fmt 5) = 16"
    by (simp add: set_width_def dec_fmt_def int_formatter_base_def)
  have l: "length (replicate 6 (CHR ''x'')) = 6" by simp
  have m: "max_formatted_length (set_width dec_fmt 5) 42 < 6"
    by (simp add: max_formatted_length_def ndigits_def uabs_def ndigits_dec.simps any_def
        plus_sign_def set_width_def dec_fmt_def int_formatter_base_def)
  show ?thesis
    using h l m formatted_write_returns_bound [OF h l m] by blast
qed

text \<open>
  C4. Where the minimum width exceeds the signed digit count (and the base is among
  8, 10 and 16, the buffer large enough), the text that \<open>formatted_write\<close> leaves in
  the buffer is, with the zero-pad flag, the sign character if any, then the fill
  zeros, then the digits; without it, the fill spaces, then the sign character if
  any, then the digits.
\<close>

theorem formatted_write_padding:
  assumes "base fmt = 8 \<or> base fmt = 10 \<or> base fmt = 16"
    and "length (sign_text fmt x) + ndigits x (base fmt) < width fmt"
    and "length buf = buf_len"
    and "width fmt < buf_len"
  shows "\<exists>buf'. formatted_write fmt x buf buf_len = Inr (width fmt, buf') \<and>
           take (width fmt) buf' =
             (if any fmt pad_zeros
              then sign_text fmt x
                   @ replicate (width fmt - (length (sign_text fmt x) + ndigits x (base fmt))) (CHR ''0'')
                   @ digits_text fmt x
              else replicate (width fmt - (length (sign_text fmt x) + ndigits x (base fmt))) (CHR '' '')
                   @ sign_text fmt x
                   @ digits_text fmt x)"
proof -
  have m: "max_formatted_length fmt x = width fmt"
    using assms(2) by (simp add: max_formatted_length_eq)
  have "formatted_write fmt x buf buf_len =
          Inr (width fmt, padded_text fmt x @ CHR 0x00 # drop (Suc (width fmt)) buf)"
    using formatted_write_result [of fmt x buf_len buf] assms m by simp
  moreover have "length (padded_text fmt x) = width fmt"
    using length_padded_text [of fmt x] m by simp
  ultimately show ?thesis
    by (simp add: padded_text_def Let_def)
qed

theorem formatted_write_padding_witness:
  "(base \<lparr>base = 10, width = 6, flags = pad_zeros\<rparr> = 8
      \<or> base \<lparr>base = 10, width = 6, flags = pad_zeros\<rparr> = 10
      \<or> base \<lparr>base = 10, width = 6, flags = pad_zeros\<rparr> = 16)
   \<and> length (sign_text \<lparr>base = 10, width = 6, flags = pad_zeros\<rparr> (- 42))
         + ndigits (- 42) (base \<lparr>base = 10, width = 6, flags = pad_zeros\<rparr>)
       < width \<lparr>base = 10, width = 6, flags = pad_zeros\<rparr>
   \<and> length (replicate 7 (CHR ''x'')) = 7
   \<and> width \<lparr>base = 10, width = 6, flags = pad_zeros\<rparr> < 7
   \<and> (\<exists>buf'. formatted_write \<lparr>base = 10, width = 6, flags = pad_zeros\<rparr> (- 42)
                  (replicate 7 (CHR ''x'')) 7 = Inr (6, buf')
              \<and> take 6 buf' = ''-00042'')"
proof -
  let ?fmt = "\<lparr>base = 10, width = 6, flags = pad_zeros\<rparr>"
  let ?buf = "replicate 7 (CHR ''x'')"
  have h: "base ?fmt = 8 \<or> base ?fmt = 10 \<or> base ?fmt = 16" by simp
  have a: "length (sign_text ?fmt (- 42)) + ndigits (- 42) (base ?fmt) < width ?fmt"
    by code_simp
  have l: "length ?buf = 7" by simp
  have w: "width ?fmt < 7" by simp
  have z: "any ?fmt pad_zeros" by code_simp
  have t: "sign_text ?fmt (- 42)
             @ replicate (width ?fmt - (length (sign_text ?fmt (- 42)) + ndigits (- 42) (base ?fmt)))
                 (CHR ''0'')
             @ digits_text ?fmt (- 42) = ''-00042''"
    by code_simp
  from formatted_write_padding [OF h a l w] obtain buf' where
    r: "formatted_write ?fmt (- 42) ?buf 7 = Inr (width ?fmt, buf')" and
    k: "take (width ?fmt) buf' =
          (if any ?fmt pad_zeros
           then sign_text ?fmt (- 42)
             @ replicate (width ?fmt - (length (sign_text ?fmt (- 42)) + ndigits (- 42) (base ?fmt)))
                 (CHR ''0'')
             @ digits_text ?fmt (- 42)
           else replicate (width ?fmt - (length (sign_text ?fmt (- 42)) + ndigits (- 42) (base ?fmt)))
                 (CHR '' '')
             @ sign_text ?fmt (- 42) @ digits_text ?fmt (- 42))"
    by blast
  from k have "take 6 buf' = ''-00042''" unfolding if_P [OF z] t by simp
  moreover from r have "formatted_write ?fmt (- 42) ?buf 7 = Inr (6, buf')" by simp
  ultimately have "\<exists>buf'. formatted_write ?fmt (- 42) ?buf 7 = Inr (6, buf')
      \<and> take 6 buf' = ''-00042''" by blast
  with h a l w show ?thesis by blast
qed

subsection \<open>The length bound of the integer formatters\<close>







subsection \<open>strf and str\<close>

lemma str_0: "str 0 = Inr ''0''" by code_simp
lemma str_m5: "str (- 5) = Inr ''-5''" by code_simp
lemma strf_hex: "strf_int (or_flags hex_fmt upper_case) 255 = Inr ''FF''" by code_simp
lemma strf_zero_pad: "strf_int (or_flags (set_width dec_fmt 5) pad_zeros) 42 = Inr ''00042''"
  by code_simp
lemma strf_space_pad: "strf_int (set_width dec_fmt 5) 42 = Inr ''   42''" by code_simp
lemma strf_plus: "strf_int (or_flags dec_fmt plus_sign) 7 = Inr ''+7''" by code_simp

text \<open>
  C5. The examples of the spec: \<open>str(0)\<close> is \<open>"0"\<close>, \<open>str(-5)\<close> is \<open>"-5"\<close>, the hex
  formatter with the upper-case flag gives \<open>"FF"\<close> for 255, the decimal formatter with
  width 5 gives \<open>"00042"\<close> for 42 with the zero-pad flag and \<open>"   42"\<close> without it, and
  with the plus-sign flag it gives \<open>"+7"\<close> for 7.
\<close>

theorem integer_formatting_examples:
  "str 0 = Inr ''0''
   \<and> str (- 5) = Inr ''-5''
   \<and> strf_int (or_flags hex_fmt upper_case) 255 = Inr ''FF''
   \<and> strf_int (or_flags (set_width dec_fmt 5) pad_zeros) 42 = Inr ''00042''
   \<and> strf_int (set_width dec_fmt 5) 42 = Inr ''   42''
   \<and> strf_int (or_flags dec_fmt plus_sign) 7 = Inr ''+7''"
  by (simp only: str_0 str_m5 strf_hex strf_zero_pad strf_space_pad strf_plus simp_thms)




subsection \<open>float\_formatter\<close>

lemma nonfinite_cases: "\<not> isfinite x \<Longrightarrow> isnan x = (\<not> isinf x)"
  by (auto simp add: isfinite_def isnan_def isinf_def)

text \<open>
  C7, as stated, fails: for positive infinity, no plus-sign flag and a minimum width
  of 10, \<open>max_formatted_length\<close> returns 10, not 3.
\<close>

theorem float_max_formatted_length_width_counterexample:
  "\<not> isfinite 0x7FF0000000000000 \<and> \<not> signbit 0x7FF0000000000000
   \<and> \<not> float_any \<lparr>notation_tag = fixed_t, fwidth = 10, fprecision = 6, fflags = 0\<rparr> plus_sign
   \<and> float_max_formatted_length (\<lambda>x p s. 0) (\<lambda>x p s. 0)
        \<lparr>notation_tag = fixed_t, fwidth = 10, fprecision = 6, fflags = 0\<rparr> 0x7FF0000000000000
       = Inr 10
   \<and> float_max_formatted_length (\<lambda>x p s. 0) (\<lambda>x p s. 0)
        \<lparr>notation_tag = fixed_t, fwidth = 10, fprecision = 6, fflags = 0\<rparr> 0x7FF0000000000000
       \<noteq> Inr 3"
  by code_simp

text \<open>
  C7, amended. For a non-finite \<open>x\<close> that is an infinity or has a clear sign bit,
  \<open>max_formatted_length(x)\<close> is the larger of the minimum width and \<open>n\<close>, where \<open>n\<close>
  is 4 when the sign bit of \<open>x\<close> is set or the plus-sign flag is set, and 3 otherwise.
\<close>

theorem float_max_formatted_length_nonfinite:
  assumes "\<not> isfinite x" and "isinf x \<or> \<not> signbit x"
  shows "float_max_formatted_length mf_fixed mf_sci fmt x =
           Inr (max (fwidth fmt) (if signbit x \<or> float_any fmt plus_sign then 4 else 3))"
  using assms nonfinite_cases [OF assms(1)]
  by (auto simp add: float_max_formatted_length_def)

theorem float_max_formatted_length_nonfinite_witness:
  "\<not> isfinite 0xFFF0000000000000
   \<and> (isinf 0xFFF0000000000000 \<or> \<not> signbit 0xFFF0000000000000)
   \<and> float_max_formatted_length (\<lambda>x p s. 0) (\<lambda>x p s. 0)
        \<lparr>notation_tag = sci_t, fwidth = 0, fprecision = 6, fflags = 0\<rparr> 0xFFF0000000000000 = Inr 4"
proof -
  have a: "\<not> isfinite 0xFFF0000000000000" by code_simp
  have b: "isinf 0xFFF0000000000000 \<or> \<not> signbit 0xFFF0000000000000" by code_simp
  have c: "signbit 0xFFF0000000000000" by code_simp
  show ?thesis
    using a b float_max_formatted_length_nonfinite [OF a b, of "\<lambda>x p s. 0" "\<lambda>x p s. 0"
        "\<lparr>notation_tag = sci_t, fwidth = 0, fprecision = 6, fflags = 0\<rparr>"] c
    by simp
qed

subsection \<open>Value-range iterator\<close>

lemma post_decrement_eq: "post_decrement it = (\<lparr>v = v it\<rparr>, it\<lparr>v := v it + 1\<rparr>)"
  by (simp add: post_decrement_def increment_def Let_def)

text \<open>
  C10. The claim: \<open>it--\<close> returns an iterator at the old value and leaves \<open>it\<close> at the
  predecessor of the old value. On the code, for an \<open>int\<close> iterator at 5, the returned
  iterator is at 5 but \<open>it\<close> is left at 6, which is the successor and not the predecessor
  4; the pre-decrement \<open>--it\<close> on the same iterator does go to 4.
\<close>

theorem post_decrement_moves_forward:
  "post_decrement \<lparr>v = (5 :: 32 word)\<rparr> = (\<lparr>v = 5\<rparr>, \<lparr>v = 6\<rparr>)
   \<and> v (snd (post_decrement \<lparr>v = (5 :: 32 word)\<rparr>)) \<noteq> prev 5
   \<and> v (pre_decrement \<lparr>v = (5 :: 32 word)\<rparr>) = prev 5"
  by (simp add: post_decrement_eq pre_decrement_def decrement_def prev_def)

end
